theory Spec2Isabelle
  imports Main "HOL-Library.Word" "HOL-Library.Multiset"
begin

unbundle bit_operations_syntax

section \<open>Machine types of the firmware\<close>

text \<open>
  The sketch targets the ESP32: \<open>uint8_t\<close>, \<open>uint16_t\<close> and \<open>uint32_t\<close> are words of
  that width, \<open>unsigned long\<close> (the type of \<open>millis()\<close>) is 32 bits wide, and \<open>int\<close> is
  32 bits wide. An \<open>int8_t\<close> is kept as its 8-bit pattern and read through \<open>sint\<close>
  (two's complement). A buffer \<open>(const uint8_t* data, size_t length)\<close> is the list of
  its bytes; \<open>length\<close> is the length of the list.
\<close>

type_synonym uint8_t = "8 word"
type_synonym int8_t = "8 word"
type_synonym uint16_t = "16 word"
type_synonym uint32_t = "32 word"

section \<open>Checksum (\<open>calculateChecksum\<close>, main.cpp lines 87-93)\<close>

text \<open>
  The loop \<open>for (size_t i = 0; i < len; i++) sum += buf[i];\<close> with its 32-bit
  accumulator. The loop state is \<open>(i, sm)\<close> (the source's \<open>sum\<close>); the byte is
  widened to 32 bits before it is added, and the addition wraps modulo \<open>2^32\<close>.
\<close>

function checksum_loop :: "uint8_t list \<Rightarrow> nat \<Rightarrow> nat \<Rightarrow> uint32_t \<Rightarrow> uint32_t" where
  "checksum_loop buf len i sm =
     (if i < len then checksum_loop buf len (i + 1) (sm + ucast (buf ! i)) else sm)"
  by pat_completeness auto
termination
  by (relation "measure (\<lambda>(buf, len, i, sm). len - i)") auto

declare checksum_loop.simps [simp del]

text \<open>\<open>return (uint16_t)(sum & 0xFFFF);\<close>\<close>

definition calculateChecksum :: "uint8_t list \<Rightarrow> nat \<Rightarrow> uint16_t" where
  "calculateChecksum buf len = ucast (checksum_loop buf len 0 0 AND 0xFFFF)"

section \<open>Outbound command frames (main.cpp lines 151-176)\<close>

text \<open>
  Both builders receive the caller's vector by reference: \<open>packet.clear()\<close> empties
  it, each \<open>push_back\<close> appends one byte. The model takes the vector's prior content
  and returns its content on return.
\<close>

definition push_back :: "uint8_t list \<Rightarrow> uint8_t \<Rightarrow> uint8_t list" where
  "push_back packet b = packet @ [b]"

definition clear :: "uint8_t list \<Rightarrow> uint8_t list" where
  "clear packet = []"

definition buildQueryCommand :: "uint8_t list \<Rightarrow> uint8_t list" where
  "buildQueryCommand packet =
     (let p = clear packet;
          p = push_back p 0xFE;
          p = push_back p 0xFE;
          p = push_back p 0x03;
          p = push_back p 0x01;
          p = push_back p 0x02;
          p = push_back p 0x00
      in p)"

definition buildBindCommand :: "uint8_t list \<Rightarrow> uint8_t list" where
  "buildBindCommand packet =
     (let p = clear packet;
          p = push_back p 0xFE;
          p = push_back p 0xFE;
          p = push_back p 0x03;
          p = push_back p 0x01;
          p = push_back p 0x02;
          p = push_back p 0x00;
          p = push_back p 0xFF
      in p)"

section \<open>Decoding a query response (\<open>decodeFridgeQuerySingleZone\<close>, main.cpp lines 100-145)\<close>

record FridgeStatus_t =
  locked :: bool
  poweredOn :: bool
  runMode :: uint8_t
  batSaver :: uint8_t
  leftTarget :: int8_t
  tempMax :: int8_t
  tempMin :: int8_t
  leftRetDiff :: uint8_t
  startDelay :: uint8_t
  unit :: uint8_t
  leftTCHot :: int8_t
  leftTCMid :: int8_t
  leftTCCold :: int8_t
  leftTCHalt :: int8_t
  leftCurrent :: int8_t
  batPercent :: uint8_t
  batVolInt :: uint8_t
  batVolDec :: uint8_t

text \<open>
  The source returns \<open>false\<close> at four places and does not say which. The model
  keeps the place: each \<open>return false\<close> carries the name the specification gives to
  that rejection.
\<close>

datatype DecodeError = TooShort | BadSync | UnsupportedCommand | ChecksumMismatch

text \<open>
  Lines 102-120, the validation. \<open>offsetSum\<close> is a \<open>uint16_t\<close>: the assignment
  \<open>offsetSum = length - 2\<close> keeps the low 16 bits of \<open>length - 2\<close>. In
  \<open>(data[offsetSum] << 8) | data[offsetSum + 1]\<close> the operands are promoted to
  32-bit \<open>int\<close> (so \<open>offsetSum + 1\<close> does not wrap) and the result is narrowed to
  16 bits. Every index read is below \<open>length\<close>, since \<open>length \<ge> 24\<close> is checked
  first and \<open>offsetSum + 1 < length\<close>.
\<close>

definition decode_checks :: "uint8_t list \<Rightarrow> DecodeError option" where
  "decode_checks data =
     (if length data < 24 then Some TooShort
      else if data ! 0 \<noteq> 0xFE \<or> data ! 1 \<noteq> 0xFE then Some BadSync
      else
        let declaredLen = data ! 2;
            cmd = data ! 3
        in
          if cmd \<noteq> 0x01 then Some UnsupportedCommand
          else if length data < 24 then Some TooShort
          else
            let offsetSum = (of_nat (length data - 2) :: uint16_t);
                sumPacket = (ucast (push_bit 8 (ucast (data ! unat offsetSum) :: uint32_t)
                                    OR ucast (data ! (unat offsetSum + 1))) :: uint16_t);
                sumCalc = calculateChecksum data (unat offsetSum)
            in
              if sumCalc \<noteq> sumPacket then Some ChecksumMismatch else None)"

text \<open>
  Lines 122-142, the field assignments, with \<open>payload = &data[4]\<close>. The cast
  \<open>(int8_t)\<close> keeps the bit pattern.
\<close>

definition assign_fields :: "uint8_t list \<Rightarrow> FridgeStatus_t \<Rightarrow> FridgeStatus_t" where
  "assign_fields data status =
     (let payload = drop 4 data in
      status
        \<lparr> locked := (payload ! 0 = 1),
          poweredOn := (payload ! 1 = 1),
          runMode := payload ! 2,
          batSaver := payload ! 3,
          leftTarget := payload ! 4,
          tempMax := payload ! 5,
          tempMin := payload ! 6,
          leftRetDiff := payload ! 7,
          startDelay := payload ! 8,
          unit := payload ! 9,
          leftTCHot := payload ! 10,
          leftTCMid := payload ! 11,
          leftTCCold := payload ! 12,
          leftTCHalt := payload ! 13,
          leftCurrent := payload ! 14,
          batPercent := payload ! 15,
          batVolInt := payload ! 16,
          batVolDec := payload ! 17 \<rparr>)"

text \<open>
  The whole function: the returned \<open>bool\<close> and the content of the caller's
  \<open>status\<close> (passed by reference) on return.
\<close>

definition decodeFridgeQuerySingleZone ::
    "uint8_t list \<Rightarrow> FridgeStatus_t \<Rightarrow> bool \<times> FridgeStatus_t" where
  "decodeFridgeQuerySingleZone data status =
     (case decode_checks data of
        Some e \<Rightarrow> (False, status)
      | None \<Rightarrow> (True, assign_fields data status))"

section \<open>The session (globals of main.cpp lines 44-56, callbacks, \<open>connectToServer\<close>, \<open>loop\<close>)\<close>

text \<open>
  A pointer to a remote characteristic is a handle, \<open>nullptr\<close> is \<open>None\<close>. The
  field \<open>written\<close> is not a variable of the sketch: it records every
  \<open>writeValue\<close> call in order, with the characteristic it was made on.
\<close>

type_synonym handle = nat

record Session =
  doConnect :: bool
  connected :: bool
  pRemoteCharacteristicWrite :: "handle option"
  pRemoteCharacteristicNotify :: "handle option"
  lastQueryMillis :: uint32_t
  g_lastNotificationData :: "uint8_t list"
  g_newDataAvailable :: bool
  written :: "(handle \<times> uint8_t list) list"

definition QUERY_INTERVAL_MS :: uint32_t where
  "QUERY_INTERVAL_MS = 60000"

text \<open>The initial values of the globals.\<close>

definition initial :: Session where
  "initial =
     \<lparr> doConnect = False, connected = False,
       pRemoteCharacteristicWrite = None, pRemoteCharacteristicNotify = None,
       lastQueryMillis = 0, g_lastNotificationData = [], g_newDataAvailable = False,
       written = [] \<rparr>"

text \<open>
  \<open>notifyCallback\<close> (lines 183-199): clear the buffer, copy the \<open>length\<close> bytes of
  \<open>pData\<close> one by one, raise the flag.
\<close>

definition notifyCallback :: "uint8_t list \<Rightarrow> Session \<Rightarrow> Session" where
  "notifyCallback pData st =
     (let st = st\<lparr>g_lastNotificationData := clear (g_lastNotificationData st)\<rparr>;
          st = st\<lparr>g_lastNotificationData := foldl push_back (g_lastNotificationData st) pData\<rparr>
      in st\<lparr>g_newDataAvailable := True\<rparr>)"

text \<open>
  \<open>MyAdvertisedDeviceCallbacks::onResult\<close> (lines 204-216); \<open>name_matches\<close> is the
  test \<open>haveName() && getName() == TARGET_DEVICE_NAME\<close> on the advertised device.
\<close>

definition onResult :: "bool \<Rightarrow> Session \<Rightarrow> Session" where
  "onResult name_matches st = (if name_matches then st\<lparr>doConnect := True\<rparr> else st)"

text \<open>\<open>MyClientCallback\<close> (lines 221-229).\<close>

definition onConnect :: "Session \<Rightarrow> Session" where
  "onConnect st = st"

definition onDisconnect :: "Session \<Rightarrow> Session" where
  "onDisconnect st = st\<lparr>connected := False\<rparr>"

text \<open>
  What the transport answers during one \<open>connectToServer\<close> call (lines 239-302):
  the result of \<open>connect\<close>, whether \<open>getService\<close> found the service, the two
  results of \<open>getCharacteristic\<close>, and the value \<open>millis()\<close> returns at line 299.
  On the three failure paths after \<open>connect\<close> the source calls
  \<open>pClient->disconnect()\<close>; the disconnect event this raises is the separate
  transition \<open>onDisconnect\<close>. Creating the client and registering
  \<open>notifyCallback\<close> (lines 243-245 and 281-286) change no variable of the sketch;
  a notification that the transport delivers is the transition \<open>notifyCallback\<close>.
\<close>

record ConnectReply =
  connect_ok :: bool
  service_found :: bool
  write_char :: "handle option"
  notify_char :: "handle option"
  connect_millis :: uint32_t

definition connectToServer :: "ConnectReply \<Rightarrow> Session \<Rightarrow> bool \<times> Session" where
  "connectToServer r st =
     (if \<not> connect_ok r then (False, st)
      else if \<not> service_found r then (False, st)
      else
        let st = st\<lparr>pRemoteCharacteristicWrite := write_char r\<rparr> in
        if pRemoteCharacteristicWrite st = None then (False, st)
        else
          let st = st\<lparr>pRemoteCharacteristicNotify := notify_char r\<rparr> in
          if pRemoteCharacteristicNotify st = None then (False, st)
          else
            let st = st\<lparr>connected := True\<rparr>;
                bindCmd = buildBindCommand [];
                st = st\<lparr>written := written st @ [(the (pRemoteCharacteristicWrite st), bindCmd)]\<rparr>;
                st = st\<lparr>lastQueryMillis := connect_millis r - QUERY_INTERVAL_MS\<rparr>
            in (True, st))"

text \<open>
  \<open>loop\<close>, step 2 (lines 332-335), step 3 (lines 338-349, \<open>now\<close> is what
  \<open>millis()\<close> returns at line 339) and step 4 (lines 352-358: the flag is reset and
  the buffer is handed to the decoder; the result is the buffer taken, if any). Step 1
  (lines 325-329) runs the scan when the session is neither connected nor about to
  connect; the scan calls \<open>onResult\<close> for each device it sees, here given as the list
  of the outcomes of the name test.
\<close>

definition loop_scan :: "bool list \<Rightarrow> Session \<Rightarrow> Session" where
  "loop_scan results st =
     (if \<not> connected st \<and> \<not> doConnect st then fold onResult results st else st)"

definition loop_connect :: "ConnectReply \<Rightarrow> Session \<Rightarrow> Session" where
  "loop_connect r st =
     (if doConnect st then (snd (connectToServer r st))\<lparr>doConnect := False\<rparr> else st)"

definition loop_query :: "uint32_t \<Rightarrow> Session \<Rightarrow> Session" where
  "loop_query now st =
     (if connected st \<and> pRemoteCharacteristicWrite st \<noteq> None then
        if now - lastQueryMillis st \<ge> QUERY_INTERVAL_MS then
          let st = st\<lparr>lastQueryMillis := now\<rparr>;
              queryCmd = buildQueryCommand []
          in st\<lparr>written := written st @ [(the (pRemoteCharacteristicWrite st), queryCmd)]\<rparr>
        else st
      else st)"

definition loop_notification :: "Session \<Rightarrow> uint8_t list option \<times> Session" where
  "loop_notification st =
     (if g_newDataAvailable st then
        let st = st\<lparr>g_newDataAvailable := False\<rparr>
        in (Some (g_lastNotificationData st), st)
      else (None, st))"

text \<open>
  The states the sketch can be in between two steps: it starts from the initial values,
  and each step of \<open>loop\<close> and each callback leads from one state to the next. The
  callbacks may come at any point between steps, with any data.
\<close>

inductive reachable :: "Session \<Rightarrow> bool" where
  start: "reachable initial"
| scan: "reachable st \<Longrightarrow> reachable (loop_scan results st)"
| connect: "reachable st \<Longrightarrow> reachable (loop_connect r st)"
| query: "reachable st \<Longrightarrow> reachable (loop_query now st)"
| notification: "reachable st \<Longrightarrow> reachable (snd (loop_notification st))"
| notify: "reachable st \<Longrightarrow> reachable (notifyCallback pData st)"
| connected_event: "reachable st \<Longrightarrow> reachable (onConnect st)"
| disconnected_event: "reachable st \<Longrightarrow> reachable (onDisconnect st)"

section \<open>The specification's decoder and test frame\<close>

text \<open>
  The specification's checksum test: the sum of the bytes before the last two, modulo
  \<open>2^16\<close>, equals the big-endian value of the last two bytes.
\<close>

definition trailing_checksum_ok :: "uint8_t list \<Rightarrow> bool" where
  "trailing_checksum_ok b =
     (sum_list (map unat (take (length b - 2) b)) mod 2 ^ 16
        = 256 * unat (b ! (length b - 2)) + unat (b ! (length b - 1)))"

text \<open>
  The rejection the specification prescribes for an input, in its order: too short,
  bad sync bytes, unsupported command, checksum mismatch.
\<close>

definition spec_decode_error :: "uint8_t list \<Rightarrow> DecodeError option" where
  "spec_decode_error b =
     (if length b < 24 then Some TooShort
      else if b ! 0 \<noteq> 0xFE \<or> b ! 1 \<noteq> 0xFE then Some BadSync
      else if b ! 3 \<noteq> 0x01 then Some UnsupportedCommand
      else if \<not> trailing_checksum_ok b then Some ChecksumMismatch
      else None)"

text \<open>
  The synthetic frame of the round-trip property: \<open>FE FE 14 01\<close>, the payload, and
  the sum of these bytes modulo \<open>2^16\<close>, high byte first.
\<close>

definition status_frame :: "uint8_t list \<Rightarrow> uint8_t list" where
  "status_frame p =
     (let body = [0xFE, 0xFE, 0x14, 0x01] @ p;
          c = sum_list (map unat body) mod 2 ^ 16
      in body @ [of_nat (c div 256), of_nat (c mod 256)])"

text \<open>The value of an \<open>int8_t\<close> with the bit pattern of the byte \<open>b\<close>.\<close>

definition twos_complement :: "uint8_t \<Rightarrow> int" where
  "twos_complement b = (if unat b < 128 then int (unat b) else int (unat b) - 256)"

section \<open>Sample data\<close>

text \<open>
  A status record with every field set, an 18-byte payload (target \<open>-20\<close>, current
  temperature \<open>-5\<close>, battery 100 percent at 12.8 V), and the 24-byte response frame
  that carries this payload: the bytes before the checksum add up to \<open>0x0576\<close>.
\<close>

definition sample_status :: FridgeStatus_t where
  "sample_status =
     \<lparr> locked = True, poweredOn = False, runMode = 9, batSaver = 9,
       leftTarget = 9, tempMax = 9, tempMin = 9, leftRetDiff = 9, startDelay = 9, unit = 9,
       leftTCHot = 9, leftTCMid = 9, leftTCCold = 9, leftTCHalt = 9, leftCurrent = 9,
       batPercent = 9, batVolInt = 9, batVolDec = 9 \<rparr>"

definition sample_payload :: "uint8_t list" where
  "sample_payload =
     [0x00, 0x01, 0x01, 0x02, 0xEC, 0x14, 0xEC, 0x02, 0x00, 0x00,
      0x00, 0x00, 0x00, 0x00, 0xFB, 0x64, 0x0C, 0x08]"

definition sample_frame :: "uint8_t list" where
  "sample_frame = [0xFE, 0xFE, 0x14, 0x01] @ sample_payload @ [0x05, 0x76]"

text \<open>
  Two inputs of 65560 bytes: the sample frame, 65534 zero bytes, and two trailing bytes
  that hold the sum of all bytes before them (\<open>0x05F1\<close>); and the same bytes with
  byte 2 changed from \<open>0x14\<close> to \<open>0x15\<close> and the trailing sum adjusted
  (\<open>0x05F2\<close>).
\<close>

definition long_frame_a :: "uint8_t list" where
  "long_frame_a = sample_frame @ replicate 65534 0 @ [0x05, 0xF1]"

definition long_frame_b :: "uint8_t list" where
  "long_frame_b = sample_frame[2 := 0x15] @ replicate 65534 0 @ [0x05, 0xF2]"

text \<open>
  A transport that connects and resolves both characteristics (handles 1 and 2) one
  second after boot, and the session this leaves behind when it starts from the initial
  values of the globals.
\<close>

definition sample_reply :: ConnectReply where
  "sample_reply =
     \<lparr> connect_ok = True, service_found = True,
       write_char = Some 1, notify_char = Some 2, connect_millis = 1000 \<rparr>"

definition bound_session :: Session where
  "bound_session = snd (connectToServer sample_reply initial)"

section \<open>The checksum as a sum\<close>

lemma checksum_loop_step:
  "i < len \<Longrightarrow> checksum_loop buf len i s = checksum_loop buf len (Suc i) (s + ucast (buf ! i))"
  by (subst checksum_loop.simps) simp

lemma checksum_loop_done:
  "\<not> i < len \<Longrightarrow> checksum_loop buf len i s = s"
  by (subst checksum_loop.simps) simp

text \<open>The loop adds the bytes at positions \<open>i..<len\<close> to the accumulator.\<close>

lemma checksum_loop_sum:
  "len \<le> length buf \<Longrightarrow>
   checksum_loop buf len i s = s + sum_list (map ucast (drop i (take len buf)))"
proof (induction buf len i s rule: checksum_loop.induct)
  case (1 buf len i s)
  show ?case
  proof (cases "i < len")
    case True
    from True "1.prems" have "i < length (take len buf)"
      by simp
    then have "drop i (take len buf) = take len buf ! i # drop (Suc i) (take len buf)"
      by (rule Cons_nth_drop_Suc [symmetric])
    with True have "drop i (take len buf) = buf ! i # drop (Suc i) (take len buf)"
      by simp
    with True "1.IH" "1.prems" show ?thesis
      by (simp add: checksum_loop_step add.assoc)
  next
    case False
    then show ?thesis by (simp add: checksum_loop_done)
  qed
qed

section \<open>Word arithmetic used by the codec\<close>

lemma unat_byte_less: "unat (x :: uint8_t) < 256"
proof -
  have "unat x < 2 ^ LENGTH(8)" by (rule unsigned_less)
  then show ?thesis by simp
qed

lemma unat_u32_less: "unat (x :: uint32_t) < 4294967296"
proof -
  have "unat x < 2 ^ LENGTH(32)" by (rule unsigned_less)
  then show ?thesis by simp
qed

lemma unat_ucast_8_32: "unat (ucast (x :: uint8_t) :: uint32_t) = unat x"
  by (simp add: unsigned_ucast_eq take_bit_nat_eq_self_iff) (use unat_byte_less [of x] in simp)

lemma unat_ucast_8_16: "unat (ucast (x :: uint8_t) :: uint16_t) = unat x"
  by (simp add: unsigned_ucast_eq take_bit_nat_eq_self_iff) (use unat_byte_less [of x] in simp)

lemma unat_acc_sum:
  "unat (s + sum_list (map ucast (xs :: uint8_t list)) :: uint32_t)
     = (unat s + sum_list (map unat xs)) mod 2 ^ 32"
proof (induction xs arbitrary: s)
  case Nil
  then show ?case using unat_u32_less [of s] by simp
next
  case (Cons x xs)
  have "s + sum_list (map ucast (x # xs)) = (s + ucast x) + sum_list (map ucast xs)"
    by (simp add: add.assoc)
  then have "unat (s + sum_list (map ucast (x # xs))) = (unat (s + ucast x) + sum_list (map unat xs)) mod 2 ^ 32"
    using Cons.IH [of "s + ucast x"] by (simp only:)
  also have "\<dots> = ((unat s + unat x) mod 2 ^ 32 + sum_list (map unat xs)) mod 2 ^ 32"
    by (simp add: unat_word_ariths unat_ucast_8_32)
  also have "\<dots> = (unat s + sum_list (map unat (x # xs))) mod 2 ^ 32"
    by (simp add: mod_add_left_eq add.assoc)
  finally show ?case .
qed


lemma unat_low16: "unat (ucast ((w :: uint32_t) AND 0xFFFF) :: uint16_t) = unat w mod 2 ^ 16"
proof -
  have "(0xFFFF :: uint32_t) = mask 16" by (simp add: mask_eq_exp_minus_1)
  then have "unat (ucast (w AND 0xFFFF) :: uint16_t) = unat (ucast (w AND mask 16) :: uint16_t)" by simp
  also have "\<dots> = unat w mod 2 ^ 16"
    by (simp add: unsigned_ucast_eq take_bit_eq_mod unat_word_ariths flip: take_bit_eq_mask)
  finally show ?thesis .
qed

lemma be16_word:
  "(ucast (push_bit 8 (ucast (h :: uint8_t) :: uint32_t) OR ucast (l :: uint8_t)) :: uint16_t)
     = push_bit 8 (ucast h) + ucast l"
proof -
  have disj: "push_bit 8 (ucast h :: uint16_t) AND ucast l = 0"
    by (rule bit_word_eqI) (auto simp: bit_simps dest: bit_imp_le_length)
  have "(ucast (push_bit 8 (ucast h :: uint32_t) OR ucast l) :: uint16_t)
          = push_bit 8 (ucast h) OR ucast l"
    by (rule bit_word_eqI) (auto simp: bit_simps dest: bit_imp_le_length)
  also have "\<dots> = push_bit 8 (ucast h) + ucast l"
    using disj by (rule disjunctive_add_eq_or [symmetric])
  finally show ?thesis .
qed

lemma be16_unat:
  "unat (ucast (push_bit 8 (ucast (h :: uint8_t) :: uint32_t) OR ucast (l :: uint8_t)) :: uint16_t)
     = 256 * unat h + unat l"
proof -
  have h: "unat h < 256" and l: "unat l < 256"
    by (rule unat_byte_less)+
  have "unat (push_bit 8 (ucast h :: uint16_t)) = 256 * unat h"
    using h by (simp add: push_bit_eq_mult unat_word_ariths unat_ucast_8_16)
  with h l show ?thesis
    by (simp add: be16_word unat_word_ariths unat_ucast_8_16)
qed

lemma split16:
  "c < 65536 \<Longrightarrow> 256 * unat (of_nat (c div 256) :: uint8_t) + unat (of_nat (c mod 256) :: uint8_t) = c"
  by (simp add: unat_of_nat take_bit_nat_eq_self_iff) 

section \<open>The checksum as a sum of bytes\<close>

lemma checksum_loop_unat:
  "len \<le> length buf \<Longrightarrow>
   unat (checksum_loop buf len 0 0) = sum_list (map unat (take len buf)) mod 2 ^ 32"
  by (simp add: checksum_loop_sum unat_acc_sum [of 0, simplified])

lemma calculateChecksum_unat:
  "len \<le> length buf \<Longrightarrow>
   unat (calculateChecksum buf len) = sum_list (map unat (take len buf)) mod 2 ^ 16"
proof -
  assume "len \<le> length buf"
  then have "unat (calculateChecksum buf len)
               = (sum_list (map unat (take len buf)) mod 2 ^ 32) mod 2 ^ 16"
    by (simp only: calculateChecksum_def unat_low16 checksum_loop_unat)
  also have "\<dots> = sum_list (map unat (take len buf)) mod 2 ^ 16"
    by (simp add: mod_mod_cancel)
  finally show ?thesis .
qed

lemma unat_sum_list16:
  "unat (sum_list (map ucast (xs :: uint8_t list)) :: uint16_t) = sum_list (map unat xs) mod 2 ^ 16"
proof (induction xs)
  case Nil
  then show ?case by simp
next
  case (Cons x xs)
  have "unat (sum_list (map ucast (x # xs)) :: uint16_t)
          = (unat x + sum_list (map unat xs) mod 2 ^ 16) mod 2 ^ 16"
    by (simp add: unat_word_ariths unat_ucast_8_16 Cons.IH)
  also have "\<dots> = sum_list (map unat (x # xs)) mod 2 ^ 16"
    by (simp add: mod_add_right_eq)
  finally show ?case .
qed

lemma calculateChecksum_word:
  "calculateChecksum b (length b) = sum_list (map ucast b)"
  by (rule unsigned_word_eqI [where ?'a = nat]) (simp add: calculateChecksum_unat unat_sum_list16)

lemma ucast_8_16_inj: "(ucast (v :: uint8_t) :: uint16_t) = ucast w \<Longrightarrow> v = w"
proof -
  assume "(ucast v :: uint16_t) = ucast w"
  then have "unat (ucast v :: uint16_t) = unat (ucast w :: uint16_t)" by simp
  then have "unat v = unat w" by (simp only: unat_ucast_8_16)
  then show "v = w" by (rule unsigned_word_eqI)
qed

lemma sum_list_ucast_mset:
  "mset a = mset b \<Longrightarrow>
   (sum_list (map ucast (a :: uint8_t list)) :: uint16_t) = sum_list (map ucast b)"
proof -
  assume "mset a = mset b"
  then have "mset (map (ucast :: uint8_t \<Rightarrow> uint16_t) a) = mset (map ucast b)" by simp
  then have "sum_mset (mset (map (ucast :: uint8_t \<Rightarrow> uint16_t) a)) = sum_mset (mset (map ucast b))"
    by (simp only:)
  then show ?thesis by (simp only: sum_mset_sum_list)
qed

text \<open>
  C6. For every byte sequence \<open>b\<close>, the checksum of \<open>b\<close> is the arithmetic sum of
  its bytes modulo \<open>2^16\<close>, which is also the low 16 bits of the sum accumulated
  modulo \<open>2^32\<close>; the function is total (it is defined by a terminating recursion),
  and the checksum of the empty sequence is 0.
\<close>

theorem calculateChecksum_sum_mod:
  "unat (calculateChecksum b (length b)) = sum_list (map unat b) mod 2 ^ 16
   \<and> unat (calculateChecksum b (length b)) = (sum_list (map unat b) mod 2 ^ 32) mod 2 ^ 16
   \<and> calculateChecksum [] 0 = 0"
proof -
  have "unat (calculateChecksum b (length b)) = sum_list (map unat b) mod 2 ^ 16"
    by (simp add: calculateChecksum_unat)
  moreover have "(sum_list (map unat b) mod 2 ^ 32) mod 2 ^ 16 = sum_list (map unat b) mod 2 ^ 16"
    by (simp add: mod_mod_cancel)
  moreover have "calculateChecksum [] 0 = 0"
    by (simp add: calculateChecksum_word [of "[]", simplified])
  ultimately show ?thesis by simp
qed

theorem calculateChecksum_sum_mod_witness:
  "unat (calculateChecksum [0xFF, 0xFF, 0x02] 3) = 512
   \<and> unat (calculateChecksum (replicate 258 0xFF) 258) = 254"
proof -
  have "unat (calculateChecksum [0xFF, 0xFF, 0x02] (length [0xFF, 0xFF, 0x02 :: uint8_t])) = 512"
    using calculateChecksum_sum_mod [of "[0xFF, 0xFF, 0x02]"] by simp
  moreover have "unat (calculateChecksum (replicate 258 0xFF) (length (replicate 258 (0xFF :: uint8_t)))) = 254"
    using calculateChecksum_sum_mod [of "replicate 258 0xFF"]
    by (simp add: sum_list_replicate comp_def)
  ultimately show ?thesis by (simp add: numeral_3_eq_3)
qed

lemma calculateChecksum_update_neq:
  assumes "i < length a" and "v \<noteq> a ! i"
  shows "calculateChecksum (a[i := v]) (length (a[i := v])) \<noteq> calculateChecksum a (length a)"
proof
  assume eq: "calculateChecksum (a[i := v]) (length (a[i := v])) = calculateChecksum a (length a)"
  from assms have upd: "a[i := v] = take i a @ v # drop (Suc i) a"
    by (simp add: upd_conv_take_nth_drop)
  from assms have orig: "take i a @ a ! i # drop (Suc i) a = a"
    by (simp add: id_take_nth_drop [symmetric])
  have "calculateChecksum (take i a @ v # drop (Suc i) a) (length (take i a @ v # drop (Suc i) a))
          = calculateChecksum (take i a @ a ! i # drop (Suc i) a)
              (length (take i a @ a ! i # drop (Suc i) a))"
    using eq by (simp only: upd orig)
  then have "(ucast v :: uint16_t) = ucast (a ! i)"
    by (simp only: calculateChecksum_word) simp
  then have "v = a ! i" by (rule ucast_8_16_inj)
  with assms show False by simp
qed

text \<open>
  C10. The checksum of a concatenation is the sum of the two checksums modulo
  \<open>2^16\<close> (addition of 16-bit words); hence any two byte sequences that are
  permutations of each other have the same checksum, while replacing one byte by a
  different value always changes the checksum.
\<close>

theorem calculateChecksum_append_perm:
  "calculateChecksum (a @ b) (length (a @ b))
     = calculateChecksum a (length a) + calculateChecksum b (length b)
   \<and> unat (calculateChecksum (a @ b) (length (a @ b)))
     = (unat (calculateChecksum a (length a)) + unat (calculateChecksum b (length b))) mod 2 ^ 16
   \<and> (\<forall>c. mset c = mset a \<longrightarrow> calculateChecksum c (length c) = calculateChecksum a (length a))
   \<and> (\<forall>i v. i < length a \<and> v \<noteq> a ! i \<longrightarrow>
         calculateChecksum (a[i := v]) (length (a[i := v])) \<noteq> calculateChecksum a (length a))"
proof -
  have app: "calculateChecksum (a @ b) (length (a @ b))
               = calculateChecksum a (length a) + calculateChecksum b (length b)"
    by (simp only: calculateChecksum_word map_append sum_list_append)
  then have napp: "unat (calculateChecksum (a @ b) (length (a @ b)))
     = (unat (calculateChecksum a (length a)) + unat (calculateChecksum b (length b))) mod 2 ^ 16"
    by (simp add: unat_word_ariths)
  have perm: "\<forall>c. mset c = mset a \<longrightarrow> calculateChecksum c (length c) = calculateChecksum a (length a)"
    by (simp only: calculateChecksum_word) (blast intro: sum_list_ucast_mset)
  have chg: "\<forall>i v. i < length a \<and> v \<noteq> a ! i \<longrightarrow>
         calculateChecksum (a[i := v]) (length (a[i := v])) \<noteq> calculateChecksum a (length a)"
  proof (intro allI impI)
    fix i v
    assume "i < length a \<and> v \<noteq> a ! i"
    then have "i < length a" and "v \<noteq> a ! i" by simp_all
    then show "calculateChecksum (a[i := v]) (length (a[i := v])) \<noteq> calculateChecksum a (length a)"
      by (rule calculateChecksum_update_neq)
  qed
  from app napp perm chg show ?thesis by (intro conjI)
qed

theorem calculateChecksum_append_perm_witness:
  "calculateChecksum ([0xFE, 0x14] @ [0x01]) 3 = calculateChecksum [0xFE, 0x14] 2 + calculateChecksum [0x01] 1
   \<and> calculateChecksum [0x01, 0xFE, 0x14] 3 = calculateChecksum [0xFE, 0x14, 0x01] 3
   \<and> calculateChecksum [0xFE, 0x15, 0x01] 3 \<noteq> calculateChecksum [0xFE, 0x14, 0x01] 3"
proof -
  note t = calculateChecksum_append_perm [of "[0xFE, 0x14]" "[0x01]"]
  note u = calculateChecksum_append_perm [of "[0xFE, 0x14, 0x01]" "[]"]
  have 1: "calculateChecksum ([0xFE, 0x14] @ [0x01]) 3 = calculateChecksum [0xFE, 0x14] 2 + calculateChecksum [0x01] 1"
    using t by (simp add: numeral_3_eq_3 numeral_2_eq_2)
  note perm = u [THEN conjunct2, THEN conjunct2, THEN conjunct1, rule_format, of "[0x01, 0xFE, 0x14]"]
  note chg = u [THEN conjunct2, THEN conjunct2, THEN conjunct2, rule_format, of 1 "0x15"]
  have m: "mset [0x01, 0xFE, 0x14 :: uint8_t] = mset [0xFE, 0x14, 0x01]"
    by simp
  have 2: "calculateChecksum [0x01, 0xFE, 0x14] 3 = calculateChecksum [0xFE, 0x14, 0x01] 3"
    using perm [OF m] by (simp add: numeral_3_eq_3)
  have "(1 :: nat) < length [0xFE, 0x14, 0x01 :: uint8_t] \<and> (0x15 :: uint8_t) \<noteq> [0xFE, 0x14, 0x01] ! 1"
    by simp
  then have "calculateChecksum ([0xFE, 0x14, 0x01][1 := 0x15]) (length ([0xFE, 0x14, 0x01 :: uint8_t][1 := 0x15]))
      \<noteq> calculateChecksum [0xFE, 0x14, 0x01] (length [0xFE, 0x14, 0x01 :: uint8_t])"
    by (rule chg)
  then have 3: "calculateChecksum [0xFE, 0x15, 0x01] 3 \<noteq> calculateChecksum [0xFE, 0x14, 0x01] 3"
    by (simp add: numeral_3_eq_3)
  from 1 2 3 show ?thesis by simp
qed

text \<open>
  C5. Whatever the caller's vector held before, \<open>buildBindCommand\<close> leaves exactly
  the seven bytes \<open>FE FE 03 01 02 00 FF\<close> in it and \<open>buildQueryCommand\<close> exactly the
  six bytes \<open>FE FE 03 01 02 00\<close>; nothing of the prior content remains and no
  checksum bytes follow.
\<close>

theorem build_commands_literal:
  "buildBindCommand packet = [0xFE, 0xFE, 0x03, 0x01, 0x02, 0x00, 0xFF]
   \<and> buildQueryCommand packet = [0xFE, 0xFE, 0x03, 0x01, 0x02, 0x00]
   \<and> length (buildBindCommand packet) = 7
   \<and> length (buildQueryCommand packet) = 6"
  by (simp add: buildBindCommand_def buildQueryCommand_def clear_def push_back_def)

theorem build_commands_literal_witness:
  "buildBindCommand [0x01, 0x02, 0x03] = [0xFE, 0xFE, 0x03, 0x01, 0x02, 0x00, 0xFF]
   \<and> buildQueryCommand [0xFE, 0xFE, 0x03, 0x01, 0x02, 0x00] = [0xFE, 0xFE, 0x03, 0x01, 0x02, 0x00]"
  using build_commands_literal [of "[0x01, 0x02, 0x03]"]
    build_commands_literal [of "[0xFE, 0xFE, 0x03, 0x01, 0x02, 0x00]"]
  by simp

section \<open>The decoder\<close>

lemma unat_of_nat_u16: "n < 65536 \<Longrightarrow> unat (of_nat n :: uint16_t) = n"
  by (simp add: unat_of_nat take_bit_nat_eq_self_iff)

lemma unat_of_nat_u16_mod: "unat (of_nat n :: uint16_t) = n mod 65536"
  by (simp add: unat_of_nat take_bit_eq_mod)

text \<open>The validation, with the word operations read as arithmetic on naturals.\<close>

lemma decode_checks_nat:
  "decode_checks data =
     (if length data < 24 then Some TooShort
      else if data ! 0 \<noteq> 0xFE \<or> data ! 1 \<noteq> 0xFE then Some BadSync
      else if data ! 3 \<noteq> 0x01 then Some UnsupportedCommand
      else if sum_list (map unat (take ((length data - 2) mod 65536) data)) mod 2 ^ 16
              \<noteq> 256 * unat (data ! ((length data - 2) mod 65536))
                  + unat (data ! ((length data - 2) mod 65536 + 1))
        then Some ChecksumMismatch
      else None)"
proof -
  have "(length data - 2) mod 65536 \<le> length data - 2"
    by (rule mod_less_eq_dividend)
  then have le: "(length data - 2) mod 65536 \<le> length data"
    by simp
  show ?thesis
    unfolding decode_checks_def Let_def unat_of_nat_u16_mod word_unat_eq_iff be16_unat
      calculateChecksum_unat [OF le]
    by simp
qed

lemma decode_checks_spec:
  assumes "length b < 65538"
  shows "decode_checks b = spec_decode_error b"
proof (cases "length b < 24")
  case True
  then show ?thesis by (simp add: decode_checks_def spec_decode_error_def)
next
  case False
  with assms have off: "(length b - 2) mod 65536 = length b - 2"
    by simp
  from False have idx: "length b - 2 + 1 = length b - 1"
    by simp
  show ?thesis
    unfolding decode_checks_nat spec_decode_error_def trailing_checksum_ok_def off idx
    by simp
qed

lemma signed_byte_value:
  "n < 256 \<Longrightarrow> (int n + 128) mod 256 - 128 = (if n < 128 then int n else int n - 256)"
proof (cases "n < 128")
  case True
  then have "(int n + 128) mod 256 = int n + 128"
    by (intro mod_pos_pos_trivial) simp_all
  with True show ?thesis by simp
next
  case False
  assume "n < 256"
  with False have "(int n - 128) mod 256 = int n - 128"
    by (intro mod_pos_pos_trivial) simp_all
  moreover have "int n + 128 = int n - 128 + 256"
    by arith
  then have "(int n + 128) mod 256 = (int n - 128 + 256) mod 256"
    by (simp only:)
  ultimately have "(int n + 128) mod 256 = int n - 128"
    by (simp only: mod_add_self2)
  with False show ?thesis by simp
qed

lemma signed_take_bit_7: "signed_take_bit 7 (int n) = (int n + 128) mod 256 - 128"
  by (simp add: signed_take_bit_eq_take_bit_shift take_bit_eq_mod)

lemma sint_twos_complement: "sint (b :: uint8_t) = twos_complement b"
proof -
  have 1: "sint b = signed_take_bit 7 (uint b)"
    using sint_uint [of b] by simp
  have 2: "uint b = int (unat b)"
    by (rule uint_nat)
  have 3: "(int (unat b) + 128) mod 256 - 128 = twos_complement b"
    unfolding twos_complement_def by (rule signed_byte_value) (rule unat_byte_less)
  show ?thesis
    unfolding 1 2 signed_take_bit_7 by (rule 3)
qed

lemma status_frame_length: "length (status_frame p) = length p + 6"
  by (simp add: status_frame_def Let_def)

lemma status_frame_accepted:
  assumes "length p = 18"
  shows "decode_checks (status_frame p) = None"
proof -
  define c where "c = sum_list (map unat ([0xFE, 0xFE, 0x14, 0x01] @ p)) mod 2 ^ 16"
  have c: "c < 65536" by (simp add: c_def)
  have frame: "status_frame p = 0xFE # 0xFE # 0x14 # 0x01 # p @ [of_nat (c div 256), of_nat (c mod 256)]"
    by (simp add: status_frame_def Let_def c_def)
  from assms have tk: "take 22 (status_frame p) = [0xFE, 0xFE, 0x14, 0x01] @ p"
    by (simp add: frame)
  from assms have hi: "status_frame p ! 22 = of_nat (c div 256)"
    and lo: "status_frame p ! 23 = of_nat (c mod 256)"
    by (simp_all add: frame nth_append)
  from assms have hd: "status_frame p ! 0 = 0xFE" "status_frame p ! 1 = 0xFE" "status_frame p ! 3 = 0x01"
    by (simp_all add: frame)
  from assms have len: "length (status_frame p) = 24"
    by (simp add: status_frame_length)
  have "sum_list (map unat (take 22 (status_frame p))) mod 2 ^ 16
          = 256 * unat (status_frame p ! 22) + unat (status_frame p ! 23)"
    unfolding tk hi lo using split16 [OF c] by (simp add: c_def)
  then show ?thesis
    unfolding decode_checks_nat len using hd by simp
qed

lemma assign_fields_all:
  "assign_fields data st =
     \<lparr> locked = (data ! 4 = 1), poweredOn = (data ! 5 = 1),
       runMode = data ! 6, batSaver = data ! 7,
       leftTarget = data ! 8, tempMax = data ! 9, tempMin = data ! 10,
       leftRetDiff = data ! 11, startDelay = data ! 12, unit = data ! 13,
       leftTCHot = data ! 14, leftTCMid = data ! 15, leftTCCold = data ! 16,
       leftTCHalt = data ! 17, leftCurrent = data ! 18,
       batPercent = data ! 19, batVolInt = data ! 20, batVolDec = data ! 21 \<rparr>"
  if "22 \<le> length data"
  using that by (cases st) (simp add: assign_fields_def Let_def)

lemma status_frame_nth:
  "k < length p \<Longrightarrow> status_frame p ! (4 + k) = p ! k"
  by (simp add: status_frame_def Let_def nth_append)

text \<open>
  C1. For every 18-byte payload \<open>p\<close>, decoding the 24-byte frame \<open>FE FE 14 01\<close>,
  \<open>p\<close>, big-endian checksum of the first 22 bytes, succeeds, whatever the caller's
  record held, and fills the record from \<open>p\<close>: \<open>locked\<close> and \<open>poweredOn\<close> are the
  tests \<open>p[0] = 1\<close> and \<open>p[1] = 1\<close>, every other field is the payload byte at its
  offset, and the value of each \<open>int8_t\<close> field is the two's-complement reading of
  its byte.
\<close>

theorem decode_status_frame:
  assumes "length p = 18"
  shows "length (status_frame p) = 24
   \<and> decodeFridgeQuerySingleZone (status_frame p) st =
       (True,
        \<lparr> locked = (p ! 0 = 1), poweredOn = (p ! 1 = 1),
          runMode = p ! 2, batSaver = p ! 3,
          leftTarget = p ! 4, tempMax = p ! 5, tempMin = p ! 6,
          leftRetDiff = p ! 7, startDelay = p ! 8, unit = p ! 9,
          leftTCHot = p ! 10, leftTCMid = p ! 11, leftTCCold = p ! 12,
          leftTCHalt = p ! 13, leftCurrent = p ! 14,
          batPercent = p ! 15, batVolInt = p ! 16, batVolDec = p ! 17 \<rparr>)
   \<and> (let r = snd (decodeFridgeQuerySingleZone (status_frame p) st) in
        sint (leftTarget r) = twos_complement (p ! 4)
        \<and> sint (tempMax r) = twos_complement (p ! 5)
        \<and> sint (tempMin r) = twos_complement (p ! 6)
        \<and> sint (leftTCHot r) = twos_complement (p ! 10)
        \<and> sint (leftTCMid r) = twos_complement (p ! 11)
        \<and> sint (leftTCCold r) = twos_complement (p ! 12)
        \<and> sint (leftTCHalt r) = twos_complement (p ! 13)
        \<and> sint (leftCurrent r) = twos_complement (p ! 14))"
proof -
  from assms have len: "length (status_frame p) = 24"
    by (simp add: status_frame_length)
  have nth: "status_frame p ! (4 + k) = p ! k" if "k < 18" for k
    using that assms by (simp add: status_frame_nth)
  have fields: "assign_fields (status_frame p) st =
        \<lparr> locked = (p ! 0 = 1), poweredOn = (p ! 1 = 1),
          runMode = p ! 2, batSaver = p ! 3,
          leftTarget = p ! 4, tempMax = p ! 5, tempMin = p ! 6,
          leftRetDiff = p ! 7, startDelay = p ! 8, unit = p ! 9,
          leftTCHot = p ! 10, leftTCMid = p ! 11, leftTCCold = p ! 12,
          leftTCHalt = p ! 13, leftCurrent = p ! 14,
          batPercent = p ! 15, batVolInt = p ! 16, batVolDec = p ! 17 \<rparr>"
    using nth [of 0] nth [of 1] nth [of 2] nth [of 3] nth [of 4] nth [of 5] nth [of 6]
      nth [of 7] nth [of 8] nth [of 9] nth [of 10] nth [of 11] nth [of 12] nth [of 13]
      nth [of 14] nth [of 15] nth [of 16] nth [of 17]
    by (simp add: assign_fields_all len)
  have dec: "decodeFridgeQuerySingleZone (status_frame p) st = (True, assign_fields (status_frame p) st)"
    by (simp add: decodeFridgeQuerySingleZone_def status_frame_accepted [OF assms])
  show ?thesis
    by (simp add: len dec fields sint_twos_complement)
qed

theorem decode_status_frame_witness:
  "decodeFridgeQuerySingleZone
     [0xFE, 0xFE, 0x14, 0x01,
      0x00, 0x01, 0x01, 0x02, 0xEC, 0x14, 0xEC, 0x02, 0x00, 0x00,
      0x00, 0x00, 0x00, 0x00, 0xFB, 0x64, 0x0C, 0x08,
      0x05, 0x76]
     \<lparr> locked = True, poweredOn = False, runMode = 9, batSaver = 9,
       leftTarget = 9, tempMax = 9, tempMin = 9, leftRetDiff = 9, startDelay = 9, unit = 9,
       leftTCHot = 9, leftTCMid = 9, leftTCCold = 9, leftTCHalt = 9, leftCurrent = 9,
       batPercent = 9, batVolInt = 9, batVolDec = 9 \<rparr>
   = (True,
      \<lparr> locked = False, poweredOn = True, runMode = 1, batSaver = 2,
        leftTarget = 0xEC, tempMax = 0x14, tempMin = 0xEC, leftRetDiff = 2, startDelay = 0,
        unit = 0, leftTCHot = 0, leftTCMid = 0, leftTCCold = 0, leftTCHalt = 0,
        leftCurrent = 0xFB, batPercent = 100, batVolInt = 12, batVolDec = 8 \<rparr>)
   \<and> sint (0xEC :: int8_t) = - 20 \<and> sint (0xFB :: int8_t) = - 5"
proof -
  define p :: "uint8_t list" where
    "p = [0x00, 0x01, 0x01, 0x02, 0xEC, 0x14, 0xEC, 0x02, 0x00, 0x00,
          0x00, 0x00, 0x00, 0x00, 0xFB, 0x64, 0x0C, 0x08]"
  have len: "length p = 18" by (simp add: p_def)
  have frame: "status_frame p =
     [0xFE, 0xFE, 0x14, 0x01,
      0x00, 0x01, 0x01, 0x02, 0xEC, 0x14, 0xEC, 0x02, 0x00, 0x00,
      0x00, 0x00, 0x00, 0x00, 0xFB, 0x64, 0x0C, 0x08,
      0x05, 0x76]"
    by (simp add: status_frame_def p_def)
  show ?thesis
    using decode_status_frame [OF len] by (simp add: frame) (simp add: p_def)
qed

lemma decode_success_iff:
  "fst (decodeFridgeQuerySingleZone data st) \<longleftrightarrow> decode_checks data = None"
  by (simp add: decodeFridgeQuerySingleZone_def split: option.split)

lemma decode_checks_None_length: "decode_checks data = None \<Longrightarrow> 24 \<le> length data"
  by (simp add: decode_checks_def split: if_splits)

text \<open>
  C7. The outcome of decoding depends on the input bytes only: the returned flag is the
  same for every prior content of the caller's record, on failure the record is
  returned exactly as it was passed in, and on success the record returned does not
  depend on what it held before.
\<close>

theorem decode_failure_keeps_status:
  "(\<not> fst (decodeFridgeQuerySingleZone data st) \<longrightarrow>
       decodeFridgeQuerySingleZone data st = (False, st))
   \<and> fst (decodeFridgeQuerySingleZone data st) = fst (decodeFridgeQuerySingleZone data st')
   \<and> (fst (decodeFridgeQuerySingleZone data st) \<longrightarrow>
       snd (decodeFridgeQuerySingleZone data st) = snd (decodeFridgeQuerySingleZone data st'))"
proof -
  have 1: "\<not> fst (decodeFridgeQuerySingleZone data st) \<longrightarrow>
       decodeFridgeQuerySingleZone data st = (False, st)"
    by (simp add: decodeFridgeQuerySingleZone_def split: option.split)
  have 2: "fst (decodeFridgeQuerySingleZone data st) = fst (decodeFridgeQuerySingleZone data st')"
    by (simp only: decode_success_iff)
  have 3: "fst (decodeFridgeQuerySingleZone data st) \<longrightarrow>
       snd (decodeFridgeQuerySingleZone data st) = snd (decodeFridgeQuerySingleZone data st')"
  proof
    assume "fst (decodeFridgeQuerySingleZone data st)"
    then have ok: "decode_checks data = None"
      by (simp only: decode_success_iff)
    then have "22 \<le> length data"
      using decode_checks_None_length [of data] by simp
    then have "assign_fields data st = assign_fields data st'"
      by (simp only: assign_fields_all)
    with ok show "snd (decodeFridgeQuerySingleZone data st) = snd (decodeFridgeQuerySingleZone data st')"
      by (simp add: decodeFridgeQuerySingleZone_def)
  qed
  from 1 2 3 show ?thesis by (intro conjI)
qed

theorem decode_failure_keeps_status_witness:
  "decodeFridgeQuerySingleZone ([0xFE, 0xFE, 0x14, 0x01] @ sample_payload @ [0x05, 0x77]) sample_status
     = (False, sample_status)
   \<and> decodeFridgeQuerySingleZone [0xFE, 0xFE, 0x03] sample_status = (False, sample_status)
   \<and> fst (decodeFridgeQuerySingleZone sample_frame sample_status)
   \<and> snd (decodeFridgeQuerySingleZone sample_frame sample_status)
       = snd (decodeFridgeQuerySingleZone sample_frame (sample_status\<lparr>locked := False\<rparr>))"
proof -
  let ?bad = "[0xFE, 0xFE, 0x14, 0x01] @ sample_payload @ [0x05, 0x77]"
  have "\<not> fst (decodeFridgeQuerySingleZone ?bad sample_status)"
    by (simp add: decode_success_iff decode_checks_nat sample_payload_def)
  with decode_failure_keeps_status [of ?bad sample_status]
  have 1: "decodeFridgeQuerySingleZone ?bad sample_status = (False, sample_status)"
    by blast
  have "\<not> fst (decodeFridgeQuerySingleZone [0xFE, 0xFE, 0x03] sample_status)"
    by (simp add: decode_success_iff decode_checks_nat)
  with decode_failure_keeps_status [of "[0xFE, 0xFE, 0x03]" sample_status]
  have 2: "decodeFridgeQuerySingleZone [0xFE, 0xFE, 0x03] sample_status = (False, sample_status)"
    by blast
  have 3: "fst (decodeFridgeQuerySingleZone sample_frame sample_status)"
    by (simp add: decode_success_iff decode_checks_nat sample_frame_def sample_payload_def)
  with decode_failure_keeps_status [of sample_frame sample_status "sample_status\<lparr>locked := False\<rparr>"]
  have 4: "snd (decodeFridgeQuerySingleZone sample_frame sample_status)
       = snd (decodeFridgeQuerySingleZone sample_frame (sample_status\<lparr>locked := False\<rparr>))"
    by blast
  from 1 2 3 4 show ?thesis by (intro conjI)
qed

section \<open>Inputs longer than 65537 bytes\<close>

text \<open>
  When 65536 further bytes follow a frame, the 16-bit \<open>offsetSum\<close> is the same as for
  the frame alone, so the validation reads the same bytes and gives the same verdict.
\<close>

lemma decode_checks_append_65536:
  assumes "24 \<le> length f" and "length f < 65538" and "length t = 65536"
  shows "decode_checks (f @ t) = decode_checks f"
proof -
  from assms have off': "(length f - 2) mod 65536 = length f - 2"
    by simp
  from assms have "length (f @ t) - 2 = (length f - 2) + 65536"
    by simp
  then have off: "(length (f @ t) - 2) mod 65536 = length f - 2"
    using off' by (simp only: mod_add_self2)
  from assms have nth: "(f @ t) ! k = f ! k" if "k < length f" for k
    using that by (simp add: nth_append)
  from assms have tk: "take (length f - 2) (f @ t) = take (length f - 2) f"
    by simp
  from assms have idx: "0 < length f" "1 < length f" "3 < length f"
    "length f - 2 < length f" "length f - 2 + 1 < length f"
    by auto
  have long: "\<not> length (f @ t) < 24" and short: "\<not> length f < 24"
    using assms by simp_all
  show ?thesis
    unfolding decode_checks_nat [of "f @ t"] decode_checks_nat [of f] off off' tk
      nth [OF idx(1)] nth [OF idx(2)] nth [OF idx(3)] nth [OF idx(4)] nth [OF idx(5)]
    using long short by simp
qed

lemma assign_fields_append:
  assumes "22 \<le> length f"
  shows "assign_fields (f @ t) st = assign_fields f st"
proof -
  from assms have "22 \<le> length (f @ t)" by simp
  moreover from assms have "(f @ t) ! k = f ! k" if "k < 22" for k
    using that by (simp add: nth_append)
  ultimately show ?thesis
    using assms by (simp add: assign_fields_all)
qed

lemma decode_append_65536:
  assumes "24 \<le> length f" and "length f < 65538" and "length t = 65536"
  shows "decodeFridgeQuerySingleZone (f @ t) st = decodeFridgeQuerySingleZone f st"
proof -
  from assms have "22 \<le> length f" by simp
  then have "assign_fields (f @ t) st = assign_fields f st"
    by (rule assign_fields_append)
  with assms show ?thesis
    by (simp add: decodeFridgeQuerySingleZone_def decode_checks_append_65536 split: option.split)
qed

text \<open>
  Below 65538 bytes the 16-bit offset is exact: the validation is the specification's,
  and byte 2 influences the outcome through the checksum only.
\<close>

lemma decode_same_outcome_below_65538:
  assumes len: "length a = length b" "length a < 65538"
    and same: "\<And>i. i < length a - 2 \<Longrightarrow> i \<noteq> 2 \<Longrightarrow> a ! i = b ! i"
    and ok: "trailing_checksum_ok a" "trailing_checksum_ok b"
  shows "decodeFridgeQuerySingleZone a st = decodeFridgeQuerySingleZone b st"
proof (cases "length a < 24")
  case True
  with len show ?thesis
    by (simp add: decodeFridgeQuerySingleZone_def decode_checks_def)
next
  case False
  with same have hd: "a ! 0 = b ! 0" "a ! 1 = b ! 1" "a ! 3 = b ! 3"
    by simp_all
  from len have "decode_checks a = spec_decode_error a" "decode_checks b = spec_decode_error b"
    by (simp_all add: decode_checks_spec)
  with hd ok len have chk: "decode_checks a = decode_checks b"
    by (simp add: spec_decode_error_def)
  from False len have ge: "22 \<le> length a" "22 \<le> length b"
    by simp_all
  from False same have "a ! k = b ! k" if "4 \<le> k" "k < 22" for k
    using that by simp
  then have "assign_fields a st = assign_fields b st"
    by (simp add: assign_fields_all ge)
  with chk show ?thesis
    by (simp add: decodeFridgeQuerySingleZone_def split: option.split)
qed

lemma decode_checks_None_header:
  "decode_checks data = None \<Longrightarrow> data ! 0 = 0xFE \<and> data ! 1 = 0xFE \<and> data ! 3 = 0x01"
  by (simp add: decode_checks_def split: if_splits)

text \<open>
  C2. The claim fails on the code for inputs of 65538 bytes or more. Whenever 65536
  further bytes follow a 24-byte frame that the decoder accepts, the decoder accepts
  the long input as well, although the two bytes at its end are not the checksum of
  the bytes before them: the specification's order of checks gives
  \<open>ChecksumMismatch\<close> there.
\<close>

theorem decode_checks_ignores_long_trailer:
  assumes "length f = 24" and "decode_checks f = None" and "length t = 65536"
    and "\<not> trailing_checksum_ok (f @ t)"
  shows "decode_checks (f @ t) = None
    \<and> fst (decodeFridgeQuerySingleZone (f @ t) st)
    \<and> spec_decode_error (f @ t) = Some ChecksumMismatch"
proof -
  from assms have acc: "decode_checks (f @ t) = None"
    by (simp add: decode_checks_append_65536)
  from assms have "(f @ t) ! 0 = f ! 0" "(f @ t) ! 1 = f ! 1" "(f @ t) ! 3 = f ! 3"
    by (simp_all add: nth_append)
  with decode_checks_None_header [OF assms(2)]
  have hd: "(f @ t) ! 0 = 0xFE" "(f @ t) ! 1 = 0xFE" "(f @ t) ! 3 = 0x01"
    by simp_all
  from assms have "\<not> length (f @ t) < 24" by simp
  with hd assms(4) have "spec_decode_error (f @ t) = Some ChecksumMismatch"
    by (simp add: spec_decode_error_def)
  with acc show ?thesis
    by (simp add: decode_success_iff)
qed

lemma sample_frame_accepted: "decode_checks sample_frame = None"
  by (simp add: decode_checks_nat sample_frame_def sample_payload_def)

lemma sample_frame_length: "length sample_frame = 24"
  by (simp add: sample_frame_def sample_payload_def)

lemma sample_long_not_ok: "\<not> trailing_checksum_ok (sample_frame @ replicate 65536 0)"
  by (simp add: trailing_checksum_ok_def sample_frame_def sample_payload_def nth_append sum_list_replicate)

theorem decode_checks_ignores_long_trailer_witness:
  "length (sample_frame @ replicate 65536 0) = 65560
   \<and> fst (decodeFridgeQuerySingleZone (sample_frame @ replicate 65536 0) sample_status)
   \<and> spec_decode_error (sample_frame @ replicate 65536 0) = Some ChecksumMismatch"
  using decode_checks_ignores_long_trailer
    [OF sample_frame_length sample_frame_accepted _ sample_long_not_ok, of sample_status]
  by (simp add: sample_frame_length)

lemma byte_sum_update_neq:
  assumes "i < length a" and "v \<noteq> a ! i"
  shows "sum_list (map unat (a[i := v])) mod 2 ^ 16 \<noteq> sum_list (map unat (a :: uint8_t list)) mod 2 ^ 16"
proof -
  have u: "unat (calculateChecksum x (length x)) = sum_list (map unat x) mod 2 ^ 16" for x
    using calculateChecksum_unat [of "length x" x] by simp
  from assms have "calculateChecksum (a[i := v]) (length (a[i := v])) \<noteq> calculateChecksum a (length a)"
    by (rule calculateChecksum_update_neq)
  then show ?thesis
    by (simp only: word_unat_eq_iff u not_False_eq_True)
qed

lemma decode_checks_length_byte_changed:
  assumes "length f = 24" and "decode_checks f = None" and "v \<noteq> f ! 2"
  shows "decode_checks (f[2 := v]) = Some ChecksumMismatch"
proof -
  from assms(1) have off: "(length f - 2) mod 65536 = 22" by simp
  from assms(1,2) have ok: "sum_list (map unat (take 22 f)) mod 2 ^ 16
      = 256 * unat (f ! 22) + unat (f ! 23)"
    by (simp add: decode_checks_nat split: if_splits)
  from assms(1,3) have "sum_list (map unat ((take 22 f)[2 := v])) mod 2 ^ 16
      \<noteq> sum_list (map unat (take 22 f)) mod 2 ^ 16"
    by (intro byte_sum_update_neq) simp_all
  then have ne: "sum_list (map unat (take 22 (f[2 := v]))) mod 2 ^ 16
      \<noteq> 256 * unat (f ! 22) + unat (f ! 23)"
    by (simp only: ok take_update_swap not_False_eq_True)
  from decode_checks_None_header [OF assms(2)] assms(1) ne show ?thesis
    by (simp add: decode_checks_nat)
qed

text \<open>
  C9. The claim fails on the code for inputs of 65538 bytes or more. Whenever 65536
  further bytes follow a 24-byte frame that the decoder accepts, the long input is
  accepted whatever these bytes are, and after changing byte 2 alone it is rejected
  whatever these bytes are: a trailing checksum that is correct for the changed input
  does not help.
\<close>

theorem decode_long_input_depends_on_length_byte:
  assumes "length f = 24" and "decode_checks f = None" and "v \<noteq> f ! 2"
    and "length t = 65536" and "length t' = 65536"
  shows "fst (decodeFridgeQuerySingleZone (f @ t) st)
    \<and> \<not> fst (decodeFridgeQuerySingleZone (f[2 := v] @ t') st)"
proof -
  from assms have "decode_checks (f @ t) = None"
    by (simp add: decode_checks_append_65536)
  moreover from assms have "decode_checks (f[2 := v] @ t') = decode_checks (f[2 := v])"
    by (intro decode_checks_append_65536) simp_all
  with assms have "decode_checks (f[2 := v] @ t') = Some ChecksumMismatch"
    by (simp add: decode_checks_length_byte_changed)
  ultimately show ?thesis
    by (simp add: decode_success_iff)
qed

lemma long_frame_a_ok: "trailing_checksum_ok long_frame_a"
  by (simp add: long_frame_a_def trailing_checksum_ok_def sample_frame_def sample_payload_def
      nth_append sum_list_replicate)

lemma long_frame_b_ok: "trailing_checksum_ok long_frame_b"
  by (simp add: long_frame_b_def trailing_checksum_ok_def sample_frame_def sample_payload_def
      nth_append sum_list_replicate)

lemma long_frames_differ_in_byte_2:
  "length long_frame_a = 65560" "length long_frame_b = 65560"
  "take 2 long_frame_a = take 2 long_frame_b"
  "long_frame_a ! 2 = 0x14" "long_frame_b ! 2 = 0x15"
  "take 65555 (drop 3 long_frame_a) = take 65555 (drop 3 long_frame_b)"
  by (simp_all add: long_frame_a_def long_frame_b_def sample_frame_def sample_payload_def)

theorem decode_long_input_depends_on_length_byte_witness:
  "length long_frame_a = 65560 \<and> length long_frame_b = 65560
   \<and> take 2 long_frame_a = take 2 long_frame_b
   \<and> take 65555 (drop 3 long_frame_a) = take 65555 (drop 3 long_frame_b)
   \<and> trailing_checksum_ok long_frame_a \<and> trailing_checksum_ok long_frame_b
   \<and> spec_decode_error long_frame_a = None \<and> spec_decode_error long_frame_b = None
   \<and> fst (decodeFridgeQuerySingleZone long_frame_a sample_status)
   \<and> \<not> fst (decodeFridgeQuerySingleZone long_frame_b sample_status)"
proof -
  have hd: "long_frame_a ! 0 = 0xFE" "long_frame_a ! Suc 0 = 0xFE" "long_frame_a ! 3 = 0x01"
    "long_frame_b ! 0 = 0xFE" "long_frame_b ! Suc 0 = 0xFE" "long_frame_b ! 3 = 0x01"
    by (simp_all add: long_frame_a_def long_frame_b_def sample_frame_def)
  have spec: "spec_decode_error long_frame_a = None" "spec_decode_error long_frame_b = None"
    by (simp_all add: spec_decode_error_def hd long_frame_a_ok long_frame_b_ok
        long_frames_differ_in_byte_2)
  have v: "(0x15 :: uint8_t) \<noteq> sample_frame ! 2"
    by (simp add: sample_frame_def)
  have t: "length (replicate 65534 0 @ [0x05, 0xF1 :: uint8_t]) = 65536"
    and t': "length (replicate 65534 0 @ [0x05, 0xF2 :: uint8_t]) = 65536"
    by simp_all
  have "fst (decodeFridgeQuerySingleZone long_frame_a sample_status)
    \<and> \<not> fst (decodeFridgeQuerySingleZone long_frame_b sample_status)"
    unfolding long_frame_a_def long_frame_b_def
    by (rule decode_long_input_depends_on_length_byte
        [OF sample_frame_length sample_frame_accepted v t t'])
  with long_frames_differ_in_byte_2 long_frame_a_ok long_frame_b_ok spec show ?thesis
    by simp
qed

section \<open>The session\<close>

lemma foldl_push_back: "foldl push_back xs ys = xs @ ys"
  by (induction ys arbitrary: xs) (simp_all add: push_back_def)

lemma notifyCallback_eq:
  "notifyCallback pData st = st\<lparr>g_lastNotificationData := pData, g_newDataAvailable := True\<rparr>"
  by (simp add: notifyCallback_def Let_def clear_def foldl_push_back)

lemma buildBindCommand_bytes: "buildBindCommand p = [0xFE, 0xFE, 0x03, 0x01, 0x02, 0x00, 0xFF]"
  by (simp add: buildBindCommand_def clear_def push_back_def)

lemma buildQueryCommand_bytes: "buildQueryCommand p = [0xFE, 0xFE, 0x03, 0x01, 0x02, 0x00]"
  by (simp add: buildQueryCommand_def clear_def push_back_def)

text \<open>
  The first query after a connect at time \<open>t0\<close>: the test of line 340 at time \<open>now\<close>
  reads \<open>now - (t0 - 60000) \<ge> 60000\<close> in 32-bit arithmetic, which holds unless
  \<open>now - t0\<close> lies in the last 60000 values before the counter wraps.
\<close>

lemma first_query_due:
  assumes "now - t0 \<le> (4294907295 :: uint32_t)"
  shows "QUERY_INTERVAL_MS \<le> now - (t0 - QUERY_INTERVAL_MS)"
proof -
  from assms have "unat (now - t0) \<le> 4294907295"
    by (simp add: word_le_nat_alt)
  then have "unat (now - t0 + 60000) = unat (now - t0) + 60000"
    by (simp add: unat_word_ariths)
  then have "(60000 :: uint32_t) \<le> now - t0 + 60000"
    by (simp add: word_le_nat_alt)
  moreover have "now - (t0 - 60000) = now - t0 + 60000"
    by simp
  ultimately show ?thesis
    by (simp only: QUERY_INTERVAL_MS_def)
qed

lemma connectToServer_success:
  assumes "connect_ok r" and "service_found r"
    and "write_char r = Some w" and "notify_char r = Some n"
  shows "connectToServer r st =
    (True, st\<lparr> pRemoteCharacteristicWrite := Some w, pRemoteCharacteristicNotify := Some n,
               connected := True,
               written := written st @ [(w, [0xFE, 0xFE, 0x03, 0x01, 0x02, 0x00, 0xFF])],
               lastQueryMillis := connect_millis r - QUERY_INTERVAL_MS \<rparr>)"
  using assms by (simp add: connectToServer_def Let_def buildBindCommand_bytes)

lemma loop_query_connected:
  assumes "connected s" and "pRemoteCharacteristicWrite s = Some w"
  shows "loop_query now s =
    (if QUERY_INTERVAL_MS \<le> now - lastQueryMillis s
     then s\<lparr> lastQueryMillis := now,
             written := written s @ [(w, [0xFE, 0xFE, 0x03, 0x01, 0x02, 0x00])] \<rparr>
     else s)"
  using assms by (simp add: loop_query_def Let_def buildQueryCommand_bytes)

lemma loop_query_keeps:
  "connected (loop_query now s) = connected s"
  "pRemoteCharacteristicWrite (loop_query now s) = pRemoteCharacteristicWrite s"
  by (simp_all add: loop_query_def Let_def)

lemma bound_session_eq:
  "bound_session =
     \<lparr> doConnect = False, connected = True,
       pRemoteCharacteristicWrite = Some 1, pRemoteCharacteristicNotify = Some 2,
       lastQueryMillis = 4294908296, g_lastNotificationData = [], g_newDataAvailable = False,
       written = [(1, [0xFE, 0xFE, 0x03, 0x01, 0x02, 0x00, 0xFF])] \<rparr>"
  by (simp add: bound_session_def sample_reply_def initial_def connectToServer_def Let_def
      buildBindCommand_bytes QUERY_INTERVAL_MS_def)

text \<open>
  In every reachable state a connected session holds a write handle, and a session
  about to connect is not connected.
\<close>

lemma fold_onResult:
  "fold onResult results st = (if True \<in> set results then st\<lparr>doConnect := True\<rparr> else st)"
  by (induction results arbitrary: st) (auto simp: onResult_def)

lemma connectToServer_connected:
  "connected (snd (connectToServer r st)) \<Longrightarrow> \<not> connected st \<Longrightarrow>
   pRemoteCharacteristicWrite (snd (connectToServer r st)) \<noteq> None"
  by (auto simp: connectToServer_def Let_def split: if_splits)

lemma reachable_invariant:
  "reachable st \<Longrightarrow>
   (connected st \<longrightarrow> pRemoteCharacteristicWrite st \<noteq> None) \<and> (doConnect st \<longrightarrow> \<not> connected st)"
proof (induction rule: reachable.induct)
  case start
  show ?case by (simp add: initial_def)
next
  case (scan st results)
  then show ?case by (auto simp: loop_scan_def fold_onResult)
next
  case (connect st r)
  show ?case
  proof (cases "doConnect st")
    case True
    with connect.IH have "\<not> connected st" by simp
    with True show ?thesis
      using connectToServer_connected [of r st] by (auto simp: loop_connect_def)
  next
    case False
    with connect.IH show ?thesis by (simp add: loop_connect_def)
  qed
next
  case (query st now)
  then show ?case by (auto simp: loop_query_def Let_def)
next
  case (notification st)
  then show ?case by (auto simp: loop_notification_def Let_def)
next
  case (notify st pData)
  then show ?case by (auto simp: notifyCallback_eq)
next
  case (connected_event st)
  then show ?case by (simp add: onConnect_def)
next
  case (disconnected_event st)
  then show ?case by (simp add: onDisconnect_def)
qed

lemma reachable_connected_handle:
  "reachable st \<Longrightarrow> connected st \<Longrightarrow> \<exists>h. pRemoteCharacteristicWrite st = Some h"
  using reachable_invariant [of st] by auto

lemma bound_session_reachable: "reachable bound_session"
proof -
  have "reachable (loop_connect sample_reply (loop_scan [True] initial))"
    by (intro reachable.connect reachable.scan reachable.start)
  moreover have "loop_connect sample_reply (loop_scan [True] initial) = bound_session"
    by (simp add: bound_session_eq loop_connect_def loop_scan_def onResult_def initial_def
        connectToServer_def sample_reply_def Let_def buildBindCommand_bytes QUERY_INTERVAL_MS_def)
  ultimately show ?thesis by simp
qed

text \<open>
  C3. When \<open>connect\<close> succeeds, the service is found and both characteristics are
  resolved, \<open>connectToServer\<close> returns true, sets \<open>connected\<close>, makes exactly one
  write, the Bind bytes on the write characteristic, and sets \<open>lastQueryMillis\<close> to
  the connect time minus 60000. The query step that follows (in \<open>loop\<close> it is the
  next statement) then writes the Query bytes, provided fewer than \<open>2^32 - 60000\<close>
  milliseconds lie between the two \<open>millis()\<close> readings. On every tick in a
  reachable state with \<open>connected\<close> set, the write handle is present and the Query
  is written if and only if \<open>now - lastQueryMillis \<ge> 60000\<close> in 32-bit unsigned
  arithmetic, and then \<open>lastQueryMillis\<close> becomes \<open>now\<close>; otherwise the tick
  changes nothing.
\<close>

theorem connect_bind_then_query_schedule:
  assumes "connect_ok r" and "service_found r"
    and "write_char r = Some w" and "notify_char r = Some n"
  shows "fst (connectToServer r st)
    \<and> connected (snd (connectToServer r st))
    \<and> pRemoteCharacteristicWrite (snd (connectToServer r st)) = Some w
    \<and> pRemoteCharacteristicNotify (snd (connectToServer r st)) = Some n
    \<and> written (snd (connectToServer r st))
        = written st @ [(w, [0xFE, 0xFE, 0x03, 0x01, 0x02, 0x00, 0xFF])]
    \<and> lastQueryMillis (snd (connectToServer r st)) = connect_millis r - 60000
    \<and> (now - connect_millis r \<le> 4294907295 \<longrightarrow>
         written (loop_query now (snd (connectToServer r st)))
           = written st @ [(w, [0xFE, 0xFE, 0x03, 0x01, 0x02, 0x00, 0xFF]),
                           (w, [0xFE, 0xFE, 0x03, 0x01, 0x02, 0x00])]
         \<and> lastQueryMillis (loop_query now (snd (connectToServer r st))) = now)
    \<and> (doConnect st \<and> now - connect_millis r \<le> 4294907295 \<longrightarrow>
         written (loop_query now (loop_connect r st))
           = written st @ [(w, [0xFE, 0xFE, 0x03, 0x01, 0x02, 0x00, 0xFF]),
                           (w, [0xFE, 0xFE, 0x03, 0x01, 0x02, 0x00])])
    \<and> (doConnect st \<and> reachable st \<longrightarrow>
         reachable (loop_connect r st) \<and> connected (loop_connect r st))
    \<and> (\<forall>s t. reachable s \<and> connected s \<longrightarrow>
         (\<exists>h. pRemoteCharacteristicWrite s = Some h
            \<and> loop_query t s =
                (if 60000 \<le> t - lastQueryMillis s
                 then s\<lparr> lastQueryMillis := t,
                         written := written s @ [(h, [0xFE, 0xFE, 0x03, 0x01, 0x02, 0x00])] \<rparr>
                 else s))
         \<and> reachable (loop_query t s) \<and> connected (loop_query t s))"
proof -
  let ?s = "snd (connectToServer r st)"
  note c = connectToServer_success [OF assms, of st]
  have due: "now - connect_millis r \<le> 4294907295 \<Longrightarrow>
      QUERY_INTERVAL_MS \<le> now - lastQueryMillis ?s"
    by (simp add: c first_query_due)
  have conn: "connected ?s" "pRemoteCharacteristicWrite ?s = Some w"
    by (simp_all add: c)
  have 1: "fst (connectToServer r st) \<and> connected ?s
    \<and> pRemoteCharacteristicWrite ?s = Some w \<and> pRemoteCharacteristicNotify ?s = Some n
    \<and> written ?s = written st @ [(w, [0xFE, 0xFE, 0x03, 0x01, 0x02, 0x00, 0xFF])]
    \<and> lastQueryMillis ?s = connect_millis r - 60000"
    by (simp add: c QUERY_INTERVAL_MS_def)
  have 2: "now - connect_millis r \<le> 4294907295 \<longrightarrow>
         written (loop_query now ?s)
           = written st @ [(w, [0xFE, 0xFE, 0x03, 0x01, 0x02, 0x00, 0xFF]),
                           (w, [0xFE, 0xFE, 0x03, 0x01, 0x02, 0x00])]
         \<and> lastQueryMillis (loop_query now ?s) = now"
  proof
    assume "now - connect_millis r \<le> 4294907295"
    then have "QUERY_INTERVAL_MS \<le> now - lastQueryMillis ?s" by (rule due)
    then show "written (loop_query now ?s)
           = written st @ [(w, [0xFE, 0xFE, 0x03, 0x01, 0x02, 0x00, 0xFF]),
                           (w, [0xFE, 0xFE, 0x03, 0x01, 0x02, 0x00])]
         \<and> lastQueryMillis (loop_query now ?s) = now"
      by (simp add: loop_query_connected [OF conn]) (simp add: c)
  qed
  have 3: "doConnect st \<and> now - connect_millis r \<le> 4294907295 \<longrightarrow>
         written (loop_query now (loop_connect r st))
           = written st @ [(w, [0xFE, 0xFE, 0x03, 0x01, 0x02, 0x00, 0xFF]),
                           (w, [0xFE, 0xFE, 0x03, 0x01, 0x02, 0x00])]"
  proof
    assume a: "doConnect st \<and> now - connect_millis r \<le> 4294907295"
    let ?l = "loop_connect r st"
    from a have l: "?l = ?s\<lparr>doConnect := False\<rparr>"
      by (simp add: loop_connect_def)
    then have lc: "connected ?l" "pRemoteCharacteristicWrite ?l = Some w"
      by (simp_all add: conn)
    from a due l have "QUERY_INTERVAL_MS \<le> now - lastQueryMillis ?l"
      by simp
    then show "written (loop_query now ?l)
           = written st @ [(w, [0xFE, 0xFE, 0x03, 0x01, 0x02, 0x00, 0xFF]),
                           (w, [0xFE, 0xFE, 0x03, 0x01, 0x02, 0x00])]"
      by (simp add: loop_query_connected [OF lc]) (simp add: l c)
  qed
  have 4: "doConnect st \<and> reachable st \<longrightarrow>
         reachable (loop_connect r st) \<and> connected (loop_connect r st)"
  proof
    assume a: "doConnect st \<and> reachable st"
    then have "reachable (loop_connect r st)"
      by (intro reachable.connect) simp
    moreover from a have "connected (loop_connect r st)"
      by (simp add: loop_connect_def conn)
    ultimately show "reachable (loop_connect r st) \<and> connected (loop_connect r st)"
      by simp
  qed
  have 5: "\<forall>s t. reachable s \<and> connected s \<longrightarrow>
         (\<exists>h. pRemoteCharacteristicWrite s = Some h
            \<and> loop_query t s =
                (if 60000 \<le> t - lastQueryMillis s
                 then s\<lparr> lastQueryMillis := t,
                         written := written s @ [(h, [0xFE, 0xFE, 0x03, 0x01, 0x02, 0x00])] \<rparr>
                 else s))
         \<and> reachable (loop_query t s) \<and> connected (loop_query t s)"
  proof (intro allI impI)
    fix s t
    assume a: "reachable s \<and> connected s"
    then obtain h where h: "pRemoteCharacteristicWrite s = Some h"
      using reachable_connected_handle [of s] by blast
    from a have keep: "reachable (loop_query t s)" "connected (loop_query t s)"
      by (simp_all add: reachable.query loop_query_keeps)
    from a h have "loop_query t s =
                (if 60000 \<le> t - lastQueryMillis s
                 then s\<lparr> lastQueryMillis := t,
                         written := written s @ [(h, [0xFE, 0xFE, 0x03, 0x01, 0x02, 0x00])] \<rparr>
                 else s)"
      by (simp add: loop_query_connected QUERY_INTERVAL_MS_def)
    with h keep show "(\<exists>h. pRemoteCharacteristicWrite s = Some h
            \<and> loop_query t s =
                (if 60000 \<le> t - lastQueryMillis s
                 then s\<lparr> lastQueryMillis := t,
                         written := written s @ [(h, [0xFE, 0xFE, 0x03, 0x01, 0x02, 0x00])] \<rparr>
                 else s))
         \<and> reachable (loop_query t s) \<and> connected (loop_query t s)"
      by blast
  qed
  from 1 2 3 4 5 show ?thesis by (intro conjI) simp_all
qed

theorem connect_bind_then_query_schedule_witness:
  "fst (connectToServer sample_reply initial)
   \<and> connected bound_session
   \<and> written bound_session = [(1, [0xFE, 0xFE, 0x03, 0x01, 0x02, 0x00, 0xFF])]
   \<and> lastQueryMillis bound_session = 4294908296
   \<and> written (loop_query 1005 bound_session)
       = [(1, [0xFE, 0xFE, 0x03, 0x01, 0x02, 0x00, 0xFF]), (1, [0xFE, 0xFE, 0x03, 0x01, 0x02, 0x00])]
   \<and> lastQueryMillis (loop_query 1005 bound_session) = 1005
   \<and> loop_query 61004 (loop_query 1005 bound_session) = loop_query 1005 bound_session
   \<and> written (loop_query 61005 (loop_query 1005 bound_session))
       = [(1, [0xFE, 0xFE, 0x03, 0x01, 0x02, 0x00, 0xFF]), (1, [0xFE, 0xFE, 0x03, 0x01, 0x02, 0x00]),
          (1, [0xFE, 0xFE, 0x03, 0x01, 0x02, 0x00])]"
proof -
  have r: "connect_ok sample_reply" "service_found sample_reply"
    "write_char sample_reply = Some 1" "notify_char sample_reply = Some 2"
    by (simp_all add: sample_reply_def)
  note t = connect_bind_then_query_schedule [OF r, of initial 1005, folded bound_session_def]
  have near: "(1005 :: uint32_t) - connect_millis sample_reply \<le> 4294907295"
    by (simp add: sample_reply_def)
  from t near have first:
    "fst (connectToServer sample_reply initial)" "connected bound_session"
    "pRemoteCharacteristicWrite bound_session = Some 1"
    "written bound_session = written initial @ [(1, [0xFE, 0xFE, 0x03, 0x01, 0x02, 0x00, 0xFF])]"
    "lastQueryMillis bound_session = connect_millis sample_reply - 60000"
    "written (loop_query 1005 bound_session)
       = written initial @ [(1, [0xFE, 0xFE, 0x03, 0x01, 0x02, 0x00, 0xFF]),
                            (1, [0xFE, 0xFE, 0x03, 0x01, 0x02, 0x00])]"
    "lastQueryMillis (loop_query 1005 bound_session) = 1005"
    by blast+
  from t have tick: "reachable s \<and> connected s \<Longrightarrow>
      (\<exists>h. pRemoteCharacteristicWrite s = Some h
         \<and> loop_query u s =
             (if 60000 \<le> u - lastQueryMillis s
              then s\<lparr> lastQueryMillis := u,
                      written := written s @ [(h, [0xFE, 0xFE, 0x03, 0x01, 0x02, 0x00])] \<rparr>
              else s))
      \<and> reachable (loop_query u s) \<and> connected (loop_query u s)" for s u
    by blast
  from first bound_session_reachable have b: "reachable bound_session \<and> connected bound_session"
    by simp
  from tick [OF b, of 1005]
  have polled: "reachable (loop_query 1005 bound_session) \<and> connected (loop_query 1005 bound_session)"
    by blast
  have handle: "pRemoteCharacteristicWrite (loop_query 1005 bound_session) = Some 1"
    by (simp add: loop_query_keeps first)
  from tick [OF polled, of 61004] handle first
  have idle: "loop_query 61004 (loop_query 1005 bound_session) = loop_query 1005 bound_session"
    by auto
  from tick [OF polled, of 61005] handle first
  have again: "written (loop_query 61005 (loop_query 1005 bound_session))
       = [(1, [0xFE, 0xFE, 0x03, 0x01, 0x02, 0x00, 0xFF]), (1, [0xFE, 0xFE, 0x03, 0x01, 0x02, 0x00]),
          (1, [0xFE, 0xFE, 0x03, 0x01, 0x02, 0x00])]"
    by (auto simp: initial_def)
  from first idle again show ?thesis
    by (simp add: initial_def sample_reply_def)
qed

text \<open>
  C4. In every state of the session, after two notifications with payloads \<open>a\<close> and
  then \<open>b\<close>, the next pass of step 4 of \<open>loop\<close> takes exactly \<open>b\<close>, and the pass
  after it, with no notification in between, takes nothing; the slot holds one
  payload, the latest.
\<close>

theorem notification_single_slot:
  "fst (loop_notification (notifyCallback b (notifyCallback a st))) = Some b
   \<and> fst (loop_notification (snd (loop_notification (notifyCallback b (notifyCallback a st))))) = None
   \<and> g_lastNotificationData (notifyCallback b (notifyCallback a st)) = b
   \<and> g_newDataAvailable (notifyCallback b (notifyCallback a st))
   \<and> fst (loop_notification (onDisconnect (notifyCallback b (notifyCallback a (onDisconnect st)))))
       = Some b"
  by (simp add: notifyCallback_eq loop_notification_def onDisconnect_def Let_def)

theorem notification_single_slot_witness:
  "fst (loop_notification (notifyCallback [0x02] (notifyCallback sample_frame initial))) = Some [0x02]
   \<and> fst (loop_notification (snd (loop_notification
         (notifyCallback [0x02] (notifyCallback sample_frame initial))))) = None
   \<and> fst (loop_notification (notifyCallback [0x02] (notifyCallback sample_frame bound_session)))
       = Some [0x02]"
  using notification_single_slot [of "[0x02]" sample_frame initial]
    notification_single_slot [of "[0x02]" sample_frame bound_session]
  by simp

text \<open>
  C8, as the code has it. A disconnect event, in any state, sets \<open>connected\<close> to false
  and changes nothing else: the cached write and notify handles keep their values.
  While \<open>connected\<close> is false the query step writes nothing, whatever the handles
  hold.
\<close>

theorem onDisconnect_keeps_handles:
  "\<not> connected (onDisconnect st)
   \<and> onDisconnect st = st\<lparr>connected := False\<rparr>
   \<and> pRemoteCharacteristicWrite (onDisconnect st) = pRemoteCharacteristicWrite st
   \<and> pRemoteCharacteristicNotify (onDisconnect st) = pRemoteCharacteristicNotify st
   \<and> loop_query now (onDisconnect st) = onDisconnect st"
  by (simp add: onDisconnect_def loop_query_def)

theorem onDisconnect_keeps_handles_witness:
  "\<not> connected (onDisconnect bound_session)
   \<and> pRemoteCharacteristicWrite (onDisconnect bound_session) = Some 1
   \<and> pRemoteCharacteristicNotify (onDisconnect bound_session) = Some 2
   \<and> written (loop_query 61005 (onDisconnect bound_session)) = written bound_session"
proof -
  note t = onDisconnect_keeps_handles [of bound_session 61005]
  note off = t [THEN conjunct1]
  note wr = t [THEN conjunct2, THEN conjunct2, THEN conjunct1]
  note nt = t [THEN conjunct2, THEN conjunct2, THEN conjunct2, THEN conjunct1]
  note idle = t [THEN conjunct2, THEN conjunct2, THEN conjunct2, THEN conjunct2]
  have h: "pRemoteCharacteristicWrite bound_session = Some 1"
    "pRemoteCharacteristicNotify bound_session = Some 2"
    by (simp_all add: bound_session_eq)
  have w: "written (loop_query 61005 (onDisconnect bound_session)) = written bound_session"
    by (simp only: idle) (simp add: onDisconnect_def)
  from off wr nt h w show ?thesis
    by (simp only:) simp
qed

text \<open>
  The claim as written fails: after a disconnect in the connected session the two
  cached handles are still there.
\<close>

theorem onDisconnect_clears_handles_counterexample:
  "connected bound_session
   \<and> pRemoteCharacteristicWrite (onDisconnect bound_session) \<noteq> None
   \<and> pRemoteCharacteristicNotify (onDisconnect bound_session) \<noteq> None"
  by (simp add: bound_session_eq onDisconnect_def)

end
